theory Spec2Isabelle
  imports Complex_Main
begin

section \<open>The utilities of \<open>neuralprophet/utils.py\<close>\<close>

text \<open>
  The module holds small stateless helpers of a forecasting model: the schedule of the
  regularisation strength, three weight penalties, an error metric, two functions on the
  seasonality configuration and the printer of one row of metrics.

  Conventions of the embedding.
  \<^item> A Python \<open>float\<close>, a NumPy \<open>float64\<close> and the entries of a tensor are modelled by
    exact reals: rounding, infinities and NaN of the machine formats are outside the model,
    and every numeric statement below is a statement about exact arithmetic. The strict
    upper bounds of the percentage error and of the autoregressive penalty hold in exact
    arithmetic only.
  \<^item> A tensor or array is the list of its entries; the reductions \<open>sum\<close> and \<open>mean\<close> do
    not depend on the shape.
  \<^item> An \<open>OrderedDict\<close> is an association list in insertion order whose keys are distinct;
    assigning to a key is \<open>od_set\<close>.
  \<^item> A raised exception is the left summand of the result.
  \<^item> A pandas timestamp is its number of nanoseconds since the epoch, a time difference
    is a number of nanoseconds, and the missing value \<open>NaT\<close> is \<open>None\<close>.
\<close>

subsection \<open>Errors and dictionaries\<close>

datatype error = KeyError string | TypeError | ZeroDivisionError | IndexError | ValueError

text \<open>\<open>d[k] = v\<close> on an ordered dictionary: an existing key keeps its place, a new key goes last.\<close>

fun od_set :: "'k \<Rightarrow> 'v \<Rightarrow> ('k \<times> 'v) list \<Rightarrow> ('k \<times> 'v) list" where
  "od_set k v [] = [(k, v)]"
| "od_set k v ((k', v') # kvs) =
     (if k = k' then (k, v) # kvs else (k', v') # od_set k v kvs)"

subsection \<open>\<open>get_regularization_lambda\<close>\<close>

text \<open>
  The numbers of epochs are integers. Dividing a float by zero raises
  \<open>ZeroDivisionError\<close>, and comparing \<open>None\<close> with a number raises \<open>TypeError\<close>.
\<close>

definition get_regularization_lambda ::
  "real option \<Rightarrow> int option \<Rightarrow> int option \<Rightarrow> error + real option" where
  "get_regularization_lambda sparsity lambda_delay_epochs epoch =
     (case sparsity of
        None \<Rightarrow> Inr None
      | Some s \<Rightarrow>
          if s < 1 then
            (if s = 0 then Inl ZeroDivisionError
             else
               let lam = 0.02 * (1.0 / s - 1.0) in
               case lambda_delay_epochs of
                 None \<Rightarrow> Inr (Some lam)
               | Some d \<Rightarrow>
                   (case epoch of
                      None \<Rightarrow> Inl TypeError
                    | Some e \<Rightarrow>
                        if e < d then
                          (if 1.0 * real_of_int d = 0 then Inl ZeroDivisionError
                           else Inr (Some (lam * real_of_int e / (1.0 * real_of_int d))))
                        else Inr (Some lam)))
          else Inr None)"

subsection \<open>The weight penalties\<close>

text \<open>\<open>torch.mean\<close> of a tensor without entries is NaN, which is \<open>None\<close> here.\<close>

definition tensor_mean :: "real list \<Rightarrow> real option" where
  "tensor_mean t = (if t = [] then None else Some (sum_list t / real (length t)))"

definition reg_func_ar :: "real list \<Rightarrow> real option" where
  "reg_func_ar weights =
     (let abs_weights = map abs weights;
          reg = map (\<lambda>a. 2.0 / (1.0 + exp (- 3 * (1 / 10 ^ 12 + a) powr (1 / 3.0))) - 1.0) abs_weights
      in tensor_mean reg)"

definition reg_func_trend :: "real list \<Rightarrow> real option \<Rightarrow> real" where
  "reg_func_trend weights threshold =
     (let abs_weights = map abs weights;
          abs_weights = (case threshold of
                           None \<Rightarrow> abs_weights
                         | Some t \<Rightarrow> map (\<lambda>a. max (a - t) 0.0) abs_weights);
          reg = abs_weights
      in sum_list reg)"

definition reg_func_season :: "real list \<Rightarrow> real option" where
  "reg_func_season weights =
     (let abs_weights = map abs weights;
          reg = abs_weights
      in tensor_mean reg)"

subsection \<open>\<open>symmetric_total_percentage_error\<close>\<close>

text \<open>
  An operation on two arrays pairs their entries. Arrays of one dimension pair up when
  their lengths agree or when one of them has a single entry, which is then repeated;
  otherwise NumPy raises \<open>ValueError\<close>.
\<close>

definition np_broadcast :: "real list \<Rightarrow> real list \<Rightarrow> error + (real \<times> real) list" where
  "np_broadcast xs ys =
     (if length xs = length ys then Inr (zip xs ys)
      else if length xs = 1 then Inr (map (\<lambda>y. (hd xs, y)) ys)
      else if length ys = 1 then Inr (map (\<lambda>x. (x, hd ys)) xs)
      else Inl ValueError)"

definition symmetric_total_percentage_error :: "real list \<Rightarrow> real list \<Rightarrow> error + real" where
  "symmetric_total_percentage_error values estimates =
     (case np_broadcast estimates values of
        Inl e \<Rightarrow> Inl e
      | Inr pairs \<Rightarrow>
          (let sum_abs_diff = sum_list (map (\<lambda>(e, v). \<bar>e - v\<bar>) pairs);
               sum_abs = sum_list (map (\<lambda>(e, v). \<bar>e\<bar> + \<bar>v\<bar>) pairs)
           in Inr (100 * sum_abs_diff / (10 / 10 ^ 9 + sum_abs))))"

subsection \<open>\<open>print_epoch_metrics\<close>\<close>

text \<open>
  A dictionary display or comprehension inserts its items one after the other.
\<close>

definition dict_of_items :: "('k \<times> 'v) list \<Rightarrow> ('k \<times> 'v) list" where
  "dict_of_items items = foldl (\<lambda>d (k, v). od_set k v d) [] items"

text \<open>
  The row that is displayed: the training metrics, merged with the validation metrics
  under their suffixed keys when these are given and not empty.
\<close>

definition display_row :: "(string \<times> real) list \<Rightarrow> (string \<times> real) list option \<Rightarrow> (string \<times> real) list" where
  "display_row metrics val_metrics =
     (case val_metrics of
        None \<Rightarrow> dict_of_items metrics
      | Some vm \<Rightarrow>
          if length vm > 0 then
            (let val = dict_of_items (map (\<lambda>(key, value). (key @ ''_val'', value)) vm)
             in dict_of_items (dict_of_items (metrics @ val)))
          else dict_of_items metrics)"

text \<open>
  A line of the console is modelled by what it shows, not by its characters: the header
  line by the column names, the value line by the index label and the values, and the
  three lines that stand for a frame without columns by a constructor each.
\<close>

datatype line =
    Header "string list"
  | Values int "real list"
  | Empty_DataFrame
  | Columns_empty
  | Index_labels "int list"

text \<open>
  \<open>DataFrame.to_string\<close> belongs to pandas. For the frame of one row built here it gives,
  when the frame has no column, the three lines \<open>Empty DataFrame\<close>, \<open>Columns: []\<close> and
  \<open>Index: [label]\<close>, and otherwise the header line followed by the value line;
  \<open>to_string row idx\<close> is the list of the lines of that text, which is also what
  \<open>splitlines\<close> returns for it.
\<close>

definition to_string :: "(string \<times> real) list \<Rightarrow> int \<Rightarrow> line list" where
  "to_string row idx =
     (if row = [] then [Empty_DataFrame, Columns_empty, Index_labels [idx]]
      else [Header (map fst row), Values idx (map snd row)])"

text \<open>The result of the printer is the list of the lines it writes to the console.\<close>

definition print_epoch_metrics ::
  "(string \<times> real) list \<Rightarrow> (string \<times> real) list option \<Rightarrow> int \<Rightarrow> error + line list" where
  "print_epoch_metrics metrics val_metrics e =
     (let metrics_string = to_string (display_row metrics val_metrics) (e + 1)
      in if e > 0 then
           (if length metrics_string > 1 then Inr [metrics_string ! 1] else Inl IndexError)
         else Inr metrics_string)"

subsection \<open>The seasonality configuration\<close>

text \<open>
  The argument of a period is \<open>'auto'\<close>, \<open>True\<close>, \<open>False\<close> or a number. Before the resolver
  runs, the field \<open>resolution\<close> of a period holds its default resolution.
\<close>

datatype seasonality_arg = Auto | Flag bool | ArgInt int | ArgFloat real

record period =
  arg :: seasonality_arg
  resolution :: int

text \<open>The field \<open>type\<close> of the source is \<open>season_type\<close> here.\<close>

record season_config =
  season_type :: string
  periods :: "(string \<times> period) list"

subsection \<open>\<open>season_config_to_model_dims\<close>\<close>

fun model_dims_loop ::
  "string \<Rightarrow> (string \<times> period) list \<Rightarrow> (string \<times> int) list \<Rightarrow> (string \<times> int) list" where
  "model_dims_loop ty [] seasonal_dims = seasonal_dims"
| "model_dims_loop ty ((name, p) # rest) seasonal_dims =
     model_dims_loop ty rest
       (od_set name (if ty = ''fourier'' then 2 * resolution p else resolution p) seasonal_dims)"

definition season_config_to_model_dims :: "season_config option \<Rightarrow> (string \<times> int) list option" where
  "season_config_to_model_dims season_config =
     (case season_config of
        None \<Rightarrow> None
      | Some c \<Rightarrow>
          if length (periods c) < 1 then None
          else Some (model_dims_loop (season_type c) (periods c) []))"

text \<open>The dimension of one period as the specification words it.\<close>

definition period_dim :: "string \<Rightarrow> period \<Rightarrow> int" where
  "period_dim ty p = (if ty = ''fourier'' then 2 * resolution p else resolution p)"

subsection \<open>\<open>set_auto_seasonalities\<close>: the dates\<close>

text \<open>\<open>pd.Timedelta(days=n)\<close> and \<open>pd.Timedelta(weeks=n)\<close>, in nanoseconds.\<close>

definition Timedelta_days :: "int \<Rightarrow> int" where
  "Timedelta_days n = n * 86400000000000"

definition Timedelta_weeks :: "int \<Rightarrow> int" where
  "Timedelta_weeks n = n * 604800000000000"

text \<open>
  \<open>Series.min\<close> and \<open>Series.max\<close> skip missing values and give \<open>NaT\<close> when nothing is
  left; \<open>series_values\<close> is the list of the values that are present.
\<close>

definition series_values :: "int option list \<Rightarrow> int list" where
  "series_values s = List.map_filter (\<lambda>v. v) s"

definition series_min :: "int option list \<Rightarrow> int option" where
  "series_min s = (case series_values s of [] \<Rightarrow> None | v # vs \<Rightarrow> Some (fold min vs v))"

definition series_max :: "int option list \<Rightarrow> int option" where
  "series_max s = (case series_values s of [] \<Rightarrow> None | v # vs \<Rightarrow> Some (fold max vs v))"

text \<open>
  \<open>Series.diff\<close>: the first entry is \<open>NaT\<close>, entry \<open>i\<close> is \<open>dates[i] - dates[i-1]\<close>, in
  the order in which the dates are given.
\<close>

fun series_diff :: "int list \<Rightarrow> int option list" where
  "series_diff [] = []"
| "series_diff (x # xs) = None # map (\<lambda>(a, b). Some (b - a)) (zip (x # xs) xs)"

text \<open>
  \<open>dt.iloc[dt.values.nonzero()[0]]\<close>: the entries whose stored integer is not zero; the
  integer that stores \<open>NaT\<close> is not zero.
\<close>

definition nonzero_entries :: "int option list \<Rightarrow> int option list" where
  "nonzero_entries dt = filter (\<lambda>d. d \<noteq> Some 0) dt"

text \<open>Arithmetic and comparisons with \<open>NaT\<close>: a difference with it is \<open>NaT\<close>, a comparison with it is false.\<close>

definition td_sub :: "int option \<Rightarrow> int option \<Rightarrow> int option" where
  "td_sub a b = (case (a, b) of (Some x, Some y) \<Rightarrow> Some (x - y) | _ \<Rightarrow> None)"

definition td_less :: "int option \<Rightarrow> int \<Rightarrow> bool" where
  "td_less a t = (case a of None \<Rightarrow> False | Some x \<Rightarrow> x < t)"

definition td_ge :: "int option \<Rightarrow> int \<Rightarrow> bool" where
  "td_ge a t = (case a of None \<Rightarrow> False | Some x \<Rightarrow> x \<ge> t)"

definition min_dt :: "int list \<Rightarrow> int option" where
  "min_dt dates = series_min (nonzero_entries (series_diff dates))"

definition auto_disable :: "int list \<Rightarrow> (string \<times> bool) list" where
  "auto_disable dates =
     (let first = series_min (map Some dates);
          last = series_max (map Some dates);
          m = min_dt dates
      in [(''yearly'', td_less (td_sub last first) (Timedelta_days 730)),
          (''weekly'', td_less (td_sub last first) (Timedelta_weeks 2) \<or> td_ge m (Timedelta_weeks 1)),
          (''daily'', td_less (td_sub last first) (Timedelta_days 2) \<or> td_ge m (Timedelta_days 1))])"

subsection \<open>\<open>set_auto_seasonalities\<close>: the periods\<close>

text \<open>\<open>int(x)\<close> of a float rounds towards zero.\<close>

definition py_int :: "real \<Rightarrow> int" where
  "py_int x = (if 0 \<le> x then \<lfloor>x\<rfloor> else \<lceil>x\<rceil>)"

text \<open>
  The body of the first loop for one period: the resolution it assigns, or the
  \<open>KeyError\<close> of \<open>auto_disable[name]\<close>. The message printed when a seasonality is
  disabled is not part of the model.
\<close>

definition resolve_period :: "(string \<times> bool) list \<Rightarrow> string \<Rightarrow> period \<Rightarrow> error + int" where
  "resolve_period ad name p =
     (let default_resolution = resolution p in
      case arg p of
        Auto \<Rightarrow>
          (case map_of ad name of
             None \<Rightarrow> Inl (KeyError name)
           | Some disabled \<Rightarrow> Inr (if disabled then 0 else default_resolution))
      | Flag True \<Rightarrow> Inr default_resolution
      | Flag False \<Rightarrow> Inr 0
      | ArgInt i \<Rightarrow> Inr i
      | ArgFloat x \<Rightarrow> Inr (py_int x))"

text \<open>\<open>periods[name].resolution = r\<close>: the period stored under \<open>name\<close> is changed in place.\<close>

definition od_set_resolution :: "string \<Rightarrow> int \<Rightarrow> (string \<times> period) list \<Rightarrow> (string \<times> period) list" where
  "od_set_resolution name r ps =
     map (\<lambda>(k, q). if k = name then (k, q\<lparr>resolution := r\<rparr>) else (k, q)) ps"

text \<open>The first loop, over the items still to visit, with the dictionary as state.\<close>

fun resolve_loop ::
  "(string \<times> bool) list \<Rightarrow> (string \<times> period) list \<Rightarrow> (string \<times> period) list
     \<Rightarrow> error + (string \<times> period) list" where
  "resolve_loop ad [] ps = Inr ps"
| "resolve_loop ad ((name, p) # rest) ps =
     (case resolve_period ad name p of
        Inl e \<Rightarrow> Inl e
      | Inr r \<Rightarrow> resolve_loop ad rest (od_set_resolution name r ps))"

text \<open>The second loop, which builds \<open>new_periods\<close>.\<close>

fun prune_loop :: "(string \<times> period) list \<Rightarrow> (string \<times> period) list \<Rightarrow> (string \<times> period) list" where
  "prune_loop [] new_periods = new_periods"
| "prune_loop ((name, p) # rest) new_periods =
     prune_loop rest (if resolution p > 0 then od_set name p new_periods else new_periods)"

text \<open>The output of \<open>verbose=True\<close> is not part of the model.\<close>

definition set_auto_seasonalities :: "int list \<Rightarrow> season_config \<Rightarrow> error + season_config option" where
  "set_auto_seasonalities dates season_config =
     (case resolve_loop (auto_disable dates) (periods season_config) (periods season_config) of
        Inl e \<Rightarrow> Inl e
      | Inr ps \<Rightarrow>
          (let new_periods = prune_loop ps [];
               c = season_config\<lparr>periods := new_periods\<rparr>
           in Inr (if length (periods c) > 0 then Some c else None)))"

subsection \<open>The resolver as the specification words it\<close>

text \<open>
  The smallest strictly positive difference between consecutive dates after sorting.
\<close>

definition spec_min_gap :: "int list \<Rightarrow> int option" where
  "spec_min_gap dates =
     (let sorted_dates = sort dates;
          gaps = filter (\<lambda>d. 0 < d) (map (\<lambda>(a, b). b - a) (zip sorted_dates (tl sorted_dates)))
      in case gaps of [] \<Rightarrow> None | g # gs \<Rightarrow> Some (fold min gs g))"

text \<open>
  The three flags from the span of the dates and the minimal gap.
\<close>

definition spec_flags :: "int \<Rightarrow> int \<Rightarrow> (string \<times> bool) list" where
  "spec_flags date_span min_gap =
     [(''yearly'', date_span < Timedelta_days 730),
      (''weekly'', date_span < Timedelta_days 14 \<or> min_gap \<ge> Timedelta_days 7),
      (''daily'', date_span < Timedelta_days 2 \<or> min_gap \<ge> Timedelta_days 1)]"

text \<open>
  The resolution of one period from its argument; \<open>disabled\<close> tells whether the
  auto-disable flag of a name is true.
\<close>

definition spec_resolution :: "(string \<Rightarrow> bool) \<Rightarrow> string \<Rightarrow> period \<Rightarrow> int" where
  "spec_resolution disabled name p =
     (case arg p of
        Auto \<Rightarrow> if disabled name then 0 else resolution p
      | Flag b \<Rightarrow> if b then resolution p else 0
      | ArgInt i \<Rightarrow> i
      | ArgFloat x \<Rightarrow> py_int x)"

definition flag_true :: "(string \<times> bool) list \<Rightarrow> string \<Rightarrow> bool" where
  "flag_true ad name = (map_of ad name = Some True)"

definition spec_resolve :: "(string \<times> bool) list \<Rightarrow> season_config \<Rightarrow> season_config option" where
  "spec_resolve ad c =
     (let resolved = map (\<lambda>(n, p). (n, p\<lparr>resolution := spec_resolution (flag_true ad) n p\<rparr>)) (periods c);
          kept = filter (\<lambda>(n, p). resolution p > 0) resolved
      in if kept = [] then None else Some (c\<lparr>periods := kept\<rparr>))"

definition builtin_names :: "string set" where
  "builtin_names = {''yearly'', ''weekly'', ''daily''}"

section \<open>Properties\<close>

subsection \<open>Ordered dictionaries\<close>

lemma od_set_fresh: "k \<notin> fst ` set kvs \<Longrightarrow> od_set k v kvs = kvs @ [(k, v)]"
  by (induction kvs) auto

lemma model_dims_loop_distinct:
  "distinct (map fst dims @ map fst ps) \<Longrightarrow>
   model_dims_loop ty ps dims = dims @ map (\<lambda>(n, p). (n, period_dim ty p)) ps"
proof (induction ps arbitrary: dims)
  case Nil
  then show ?case by simp
next
  case (Cons a ps)
  obtain n p where a: "a = (n, p)" by (cases a)
  from Cons.prems a have fresh: "n \<notin> fst ` set dims" by auto
  from Cons.prems a have d: "distinct (map fst (dims @ [(n, period_dim ty p)]) @ map fst ps)"
    by auto
  have "model_dims_loop ty (a # ps) dims
        = model_dims_loop ty ps (dims @ [(n, period_dim ty p)])"
    using fresh by (simp add: a od_set_fresh period_dim_def)
  also have "\<dots> = (dims @ [(n, period_dim ty p)]) @ map (\<lambda>(n, p). (n, period_dim ty p)) ps"
    using d by (rule Cons.IH)
  finally show ?case by (simp add: a)
qed

subsection \<open>The seasonal dimension mapper\<close>

text \<open>
  Claim C8. \<open>season_config_to_model_dims\<close> returns nothing exactly when the configuration
  is absent or has no period. Otherwise, the keys of the periods being distinct as in any
  dictionary, it returns one entry per period, in the order of the configuration, whose
  value is twice the resolution when the type is \<open>fourier\<close> and the resolution otherwise.
\<close>

theorem season_config_to_model_dims_spec:
  "(season_config_to_model_dims sc = None
      \<longleftrightarrow> sc = None \<or> (\<exists>c. sc = Some c \<and> periods c = []))
   \<and> (\<forall>c. sc = Some c \<and> periods c \<noteq> [] \<and> distinct (map fst (periods c)) \<longrightarrow>
        (\<exists>dims. season_config_to_model_dims sc = Some dims
           \<and> dims = map (\<lambda>(n, p). (n, period_dim (season_type c) p)) (periods c)
           \<and> map fst dims = map fst (periods c)
           \<and> length dims = length (periods c)))"
proof (intro conjI allI impI)
  show "season_config_to_model_dims sc = None
      \<longleftrightarrow> sc = None \<or> (\<exists>c. sc = Some c \<and> periods c = [])"
    by (cases sc) (auto simp: season_config_to_model_dims_def)
next
  fix c
  assume h: "sc = Some c \<and> periods c \<noteq> [] \<and> distinct (map fst (periods c))"
  then have "model_dims_loop (season_type c) (periods c) []
             = map (\<lambda>(n, p). (n, period_dim (season_type c) p)) (periods c)"
    using model_dims_loop_distinct [of "[]" "periods c" "season_type c"] by simp
  with h show "\<exists>dims. season_config_to_model_dims sc = Some dims
           \<and> dims = map (\<lambda>(n, p). (n, period_dim (season_type c) p)) (periods c)
           \<and> map fst dims = map fst (periods c)
           \<and> length dims = length (periods c)"
    by (auto simp: season_config_to_model_dims_def)
qed

theorem season_config_to_model_dims_spec_witness:
  "periods \<lparr>season_type = ''fourier'',
            periods = [(''yearly'', \<lparr>arg = Auto, resolution = 6\<rparr>),
                       (''weekly'', \<lparr>arg = Flag True, resolution = 3\<rparr>)]\<rparr> \<noteq> []
   \<and> distinct (map fst [(''yearly'', \<lparr>arg = Auto, resolution = 6\<rparr>),
                          (''weekly'', \<lparr>arg = Flag True, resolution = 3\<rparr>)])
   \<and> season_config_to_model_dims
        (Some \<lparr>season_type = ''fourier'',
               periods = [(''yearly'', \<lparr>arg = Auto, resolution = 6\<rparr>),
                          (''weekly'', \<lparr>arg = Flag True, resolution = 3\<rparr>)]\<rparr>)
       = Some [(''yearly'', 12), (''weekly'', 6)]"
  using season_config_to_model_dims_spec [of
        "Some \<lparr>season_type = ''fourier'',
               periods = [(''yearly'', \<lparr>arg = Auto, resolution = 6\<rparr>),
                          (''weekly'', \<lparr>arg = Flag True, resolution = 3\<rparr>)]\<rparr>"]
  by (simp add: period_dim_def)

subsection \<open>The dates of the resolver\<close>

lemmas resolver_defs =
  set_auto_seasonalities_def auto_disable_def min_dt_def series_min_def series_max_def
  series_values_def nonzero_entries_def td_sub_def td_less_def td_ge_def
  Timedelta_days_def Timedelta_weeks_def resolve_period_def od_set_resolution_def
  spec_resolve_def spec_resolution_def flag_true_def builtin_names_def Let_def

lemma series_values_map_Some: "series_values (map Some xs) = xs"
  by (induction xs) (simp_all add: series_values_def series_values_def)

lemma fold_min_Min: "fold min vs (v::int) = Min (set (v # vs))"
  by (rule Min.set_eq_fold [symmetric])

lemma fold_max_Max: "fold max vs (v::int) = Max (set (v # vs))"
  by (rule Max.set_eq_fold [symmetric])

lemma series_min_dates: "dates \<noteq> [] \<Longrightarrow> series_min (map Some dates) = Some (Min (set dates))"
  by (cases dates) (simp_all add: series_min_def series_values_map_Some fold_min_Min del: set_simps list.map)

lemma series_max_dates: "dates \<noteq> [] \<Longrightarrow> series_max (map Some dates) = Some (Max (set dates))"
  by (cases dates) (simp_all add: series_max_def series_values_map_Some fold_max_Max del: set_simps list.map)

lemma series_values_nonzero_diff:
  "series_values (nonzero_entries (series_diff dates))
   = filter (\<lambda>d. d \<noteq> 0) (map (\<lambda>(a, b). b - a) (zip dates (tl dates)))"
proof (cases dates)
  case Nil
  then show ?thesis by (simp add: series_values_def nonzero_entries_def series_values_def)
next
  case (Cons x xs)
  have "series_values (filter (\<lambda>d. d \<noteq> Some 0) (map (\<lambda>(a, b). Some (b - a)) zs))
        = filter (\<lambda>d. d \<noteq> 0) (map (\<lambda>(a, b). b - a) zs)" for zs :: "(int \<times> int) list"
    by (induction zs) (auto simp: series_values_def series_values_def)
  then show ?thesis
    using Cons by (simp add: nonzero_entries_def series_values_def series_values_def)
qed

lemma zero_gaps_constant:
  "\<forall>(a, b) \<in> set (zip (x # xs) xs). b - a = (0::int) \<Longrightarrow> set (x # xs) = {x}"
  by (induction xs arbitrary: x) auto

lemma some_nonzero_gap:
  assumes "2 \<le> card (set dates)"
  shows "filter (\<lambda>d. d \<noteq> 0) (map (\<lambda>(a, b). b - a) (zip dates (tl dates))) \<noteq> ([]::int list)"
proof
  assume e: "filter (\<lambda>d. d \<noteq> 0) (map (\<lambda>(a, b). b - a) (zip dates (tl dates))) = ([]::int list)"
  from assms obtain x xs where d: "dates = x # xs" by (cases dates) auto
  from e d have "\<forall>(a, b) \<in> set (zip (x # xs) xs). b - a = 0"
    by (auto simp: filter_empty_conv)
  then have "set (x # xs) = {x}" by (rule zero_gaps_constant)
  then have "card (set dates) = 1" by (simp only: d card.empty card_insert_disjoint finite.emptyI empty_iff) simp
  with assms show False by simp
qed

lemma min_dt_Some:
  assumes "2 \<le> card (set dates)"
  shows "\<exists>g. min_dt dates = Some g"
  using some_nonzero_gap [OF assms]
  by (auto simp: min_dt_def series_min_def series_values_nonzero_diff split: list.splits)

text \<open>
  The flags in terms of the resolver's own minimal gap \<open>min_dt\<close>, which is defined as soon
  as two timestamps differ.
\<close>

lemma auto_disable_min_dt:
  assumes "2 \<le> card (set dates)"
  shows "\<exists>span min_gap.
           span = Max (set dates) - Min (set dates) \<and> min_dt dates = Some min_gap \<and>
           auto_disable dates =
             [(''yearly'', span < Timedelta_days 730),
              (''weekly'', span < Timedelta_days 14 \<or> min_gap \<ge> Timedelta_days 7),
              (''daily'', span < Timedelta_days 2 \<or> min_gap \<ge> Timedelta_days 1)]"
proof -
  from assms have ne: "dates \<noteq> []" by auto
  from min_dt_Some [OF assms] obtain g where g: "min_dt dates = Some g" ..
  have w2: "Timedelta_weeks 2 = Timedelta_days 14" and w1: "Timedelta_weeks 1 = Timedelta_days 7"
    by (simp_all add: Timedelta_weeks_def Timedelta_days_def)
  show ?thesis
    using g ne
    by (simp add: auto_disable_def series_min_dates series_max_dates td_sub_def td_less_def
        td_ge_def w1 w2)
qed

lemma fold_min_mem: "fold min xs (x::int) \<in> set (x # xs)"
  by (induction xs arbitrary: x) (auto simp: min_def)

lemma sorted_gaps_nonneg:
  "sorted (x # xs) \<Longrightarrow> \<forall>(a, b) \<in> set (zip (x # xs) xs). (a::int) \<le> b"
  by (induction xs arbitrary: x) auto

lemma sorted_nonzero_positive:
  assumes "sorted dates"
  shows "filter (\<lambda>d. d \<noteq> 0) (map (\<lambda>(a, b). b - a) (zip dates (tl dates)))
         = filter (\<lambda>d. 0 < d) (map (\<lambda>(a, b). b - a) (zip dates (tl dates :: int list)))"
proof (cases dates)
  case Nil
  then show ?thesis by simp
next
  case (Cons x xs)
  with assms have "\<forall>(a, b) \<in> set (zip (x # xs) xs). a \<le> b"
    using sorted_gaps_nonneg by blast
  then show ?thesis
    unfolding Cons list.sel by (intro filter_cong refl) auto
qed

text \<open>
  Claim C2, amended. The resolver takes the differences of the dates in the order given and
  never sorts them. For ascending dates with at least two distinct timestamps its minimal
  gap is the smallest strictly positive difference between consecutive sorted dates; the
  zero gaps of repeated timestamps are ignored.
\<close>

theorem min_dt_sorted:
  assumes "sorted dates" and "2 \<le> card (set dates)"
  shows "min_dt dates = spec_min_gap dates \<and> (\<exists>g. 0 < g \<and> min_dt dates = Some g)"
proof -
  let ?gaps = "filter (\<lambda>d. 0 < d) (map (\<lambda>(a, b). b - a) (zip dates (tl dates)))"
  have v: "series_values (nonzero_entries (series_diff dates)) = ?gaps"
    using assms(1) by (simp add: series_values_nonzero_diff sorted_nonzero_positive)
  have s: "sort dates = dates" using assms(1) by (rule sorted_sort_id)
  have eq: "min_dt dates = spec_min_gap dates"
    by (simp add: min_dt_def series_min_def v spec_min_gap_def s)
  from min_dt_Some [OF assms(2)] obtain g where g: "min_dt dates = Some g" ..
  then obtain g0 gs where c: "?gaps = g0 # gs" and "g = fold min gs g0"
    by (auto simp: min_dt_def series_min_def v split: list.splits)
  then have "g \<in> set ?gaps" using fold_min_mem [of gs g0] by (simp only: c)
  then have "0 < g" by simp
  with eq g show ?thesis by auto
qed

text \<open>
  Claim C2 as stated fails on dates that are not ascending: for the days 0, 2, 1 the
  resolver's minimal gap is minus one day, the smallest positive gap of the sorted dates
  is one day.
\<close>

theorem min_dt_unsorted:
  "min_dt [0, 172800000000000, 86400000000000] = Some (- 86400000000000)
   \<and> spec_min_gap [0, 172800000000000, 86400000000000] = Some 86400000000000
   \<and> min_dt [0, 172800000000000, 86400000000000] \<noteq> spec_min_gap [0, 172800000000000, 86400000000000]"
  by (simp add: min_dt_def series_min_def series_values_def nonzero_entries_def spec_min_gap_def)

theorem min_dt_sorted_witness:
  "sorted [0, 86400000000000, 86400000000000, 259200000000000 :: int]
   \<and> 2 \<le> card (set [0, 86400000000000, 86400000000000, 259200000000000 :: int])
   \<and> min_dt [0, 86400000000000, 86400000000000, 259200000000000] = Some 86400000000000
   \<and> spec_min_gap [0, 86400000000000, 86400000000000, 259200000000000] = Some 86400000000000"
  using min_dt_sorted [of "[0, 86400000000000, 86400000000000, 259200000000000]"]
  by (simp add: spec_min_gap_def)

lemma min_dt_ascending:
  assumes "sorted dates"
  shows "min_dt dates = spec_min_gap dates"
proof -
  have "series_values (nonzero_entries (series_diff dates))
        = filter (\<lambda>d. 0 < d) (map (\<lambda>(a, b). b - a) (zip dates (tl dates)))"
    using assms by (simp add: series_values_nonzero_diff sorted_nonzero_positive)
  moreover have "sort dates = dates" using assms by (rule sorted_sort_id)
  ultimately show ?thesis
    by (simp add: min_dt_def series_min_def spec_min_gap_def)
qed

text \<open>
  Claim C3, amended. For ascending dates with at least two distinct timestamps, with
  \<open>span = max(dates) - min(dates)\<close> and \<open>min_gap\<close> the smallest strictly positive difference
  between consecutive sorted dates, the flags of the resolver are: yearly is disabled
  exactly when the span is below 730 days, weekly exactly when the span is below 14 days
  or \<open>min_gap\<close> is at least 7 days, daily exactly when the span is below 2 days or
  \<open>min_gap\<close> is at least 1 day.
\<close>

theorem auto_disable_flags_ascending:
  assumes "sorted dates" and "2 \<le> card (set dates)"
  shows "\<exists>min_gap. spec_min_gap dates = Some min_gap
           \<and> auto_disable dates = spec_flags (Max (set dates) - Min (set dates)) min_gap"
proof -
  from auto_disable_min_dt [OF assms(2)] obtain g where
    g: "min_dt dates = Some g" and
    f: "auto_disable dates = spec_flags (Max (set dates) - Min (set dates)) g"
    by (auto simp: spec_flags_def)
  from g have "spec_min_gap dates = Some g"
    using min_dt_ascending [OF assms(1)] by simp
  with f show ?thesis by blast
qed

theorem auto_disable_flags_ascending_witness:
  "sorted [0, 259200000000000, 1728000000000000 :: int]
   \<and> 2 \<le> card (set [0, 259200000000000, 1728000000000000 :: int])
   \<and> spec_min_gap [0, 259200000000000, 1728000000000000] = Some 259200000000000
   \<and> auto_disable [0, 259200000000000, 1728000000000000]
       = [(''yearly'', True), (''weekly'', False), (''daily'', True)]"
  using auto_disable_flags_ascending [of "[0, 259200000000000, 1728000000000000]"]
  by (simp add: resolver_defs spec_min_gap_def spec_flags_def)

text \<open>
  Claim C3 as stated fails on dates that are not ascending. For the days 0, 30, 15 the
  span is 30 days and the smallest positive gap of the sorted dates is 15 days, so that
  the claim disables weekly and daily; the resolver's own minimal gap is minus 15 days,
  and it disables neither.
\<close>

theorem auto_disable_flags_unsorted:
  "spec_min_gap [0, 2592000000000000, 1296000000000000] = Some 1296000000000000
   \<and> spec_flags (Max (set [0, 2592000000000000, 1296000000000000])
                  - Min (set [0, 2592000000000000, 1296000000000000])) 1296000000000000
       = [(''yearly'', True), (''weekly'', True), (''daily'', True)]
   \<and> auto_disable [0, 2592000000000000, 1296000000000000]
       = [(''yearly'', True), (''weekly'', False), (''daily'', False)]"
  by (simp add: resolver_defs spec_min_gap_def spec_flags_def)

subsection \<open>The periods of the resolver\<close>

lemma map_of_auto_disable_None:
  "map_of (auto_disable dates) name = None \<longleftrightarrow> name \<notin> builtin_names"
  by (simp add: auto_disable_def builtin_names_def Let_def)

lemma resolve_period_Inl:
  "resolve_period ad name p = Inl e \<Longrightarrow> e = KeyError name \<and> map_of ad name = None \<and> arg p = Auto"
  by (auto simp: resolve_period_def Let_def split: seasonality_arg.splits option.splits bool.splits)

lemma resolve_period_Inr:
  "arg p = Auto \<longrightarrow> map_of ad name \<noteq> None \<Longrightarrow>
   resolve_period ad name p = Inr (spec_resolution (flag_true ad) name p)"
  by (auto simp: resolve_period_def spec_resolution_def flag_true_def Let_def
      split: seasonality_arg.splits option.splits bool.splits)

lemma od_set_resolution_distinct:
  "name \<notin> fst ` set pre \<Longrightarrow> name \<notin> fst ` set rest \<Longrightarrow>
   od_set_resolution name r (pre @ (name, p) # rest) = pre @ (name, p\<lparr>resolution := r\<rparr>) # rest"
proof -
  have "name \<notin> fst ` set xs \<Longrightarrow> od_set_resolution name r xs = xs" for xs
    by (induction xs) (auto simp: od_set_resolution_def)
  then show "name \<notin> fst ` set pre \<Longrightarrow> name \<notin> fst ` set rest \<Longrightarrow> ?thesis"
    by (simp add: od_set_resolution_def)
qed

lemma resolve_loop_distinct:
  "distinct (map fst (pre @ items)) \<Longrightarrow>
   \<forall>(n, p) \<in> set items. arg p = Auto \<longrightarrow> map_of ad n \<noteq> None \<Longrightarrow>
   resolve_loop ad items (pre @ items)
   = Inr (pre @ map (\<lambda>(n, p). (n, p\<lparr>resolution := spec_resolution (flag_true ad) n p\<rparr>)) items)"
proof (induction items arbitrary: pre)
  case Nil
  then show ?case by simp
next
  case (Cons a items)
  obtain n p where a: "a = (n, p)" by (cases a)
  let ?r = "spec_resolution (flag_true ad) n p"
  from Cons.prems a have r: "resolve_period ad n p = Inr ?r"
    by (intro resolve_period_Inr) auto
  from Cons.prems(1) a have f: "n \<notin> fst ` set pre" "n \<notin> fst ` set items" by auto
  have d: "distinct (map fst ((pre @ [(n, p\<lparr>resolution := ?r\<rparr>)]) @ items))"
    using Cons.prems(1) a by auto
  have rest: "\<forall>(n, p) \<in> set items. arg p = Auto \<longrightarrow> map_of ad n \<noteq> None"
    using Cons.prems(2) by auto
  have "resolve_loop ad (a # items) (pre @ a # items)
        = resolve_loop ad items ((pre @ [(n, p\<lparr>resolution := ?r\<rparr>)]) @ items)"
    using f by (simp add: a r od_set_resolution_distinct)
  also have "\<dots> = Inr ((pre @ [(n, p\<lparr>resolution := ?r\<rparr>)])
                     @ map (\<lambda>(n, p). (n, p\<lparr>resolution := spec_resolution (flag_true ad) n p\<rparr>)) items)"
    using d rest by (rule Cons.IH)
  finally show ?case by (simp add: a)
qed

lemma prune_loop_distinct:
  "distinct (map fst new_periods @ map fst ps) \<Longrightarrow>
   prune_loop ps new_periods = new_periods @ filter (\<lambda>(n, p). resolution p > 0) ps"
proof (induction ps arbitrary: new_periods)
  case Nil
  then show ?case by simp
next
  case (Cons a ps)
  obtain n p where a: "a = (n, p)" by (cases a)
  from Cons.prems a have fresh: "n \<notin> fst ` set new_periods" by auto
  show ?case
  proof (cases "resolution p > 0")
    case True
    from Cons.prems a have "distinct (map fst (new_periods @ [(n, p)]) @ map fst ps)" by auto
    then have "prune_loop ps (new_periods @ [(n, p)])
               = (new_periods @ [(n, p)]) @ filter (\<lambda>(n, p). resolution p > 0) ps"
      by (rule Cons.IH)
    with True fresh show ?thesis by (simp add: a od_set_fresh)
  next
    case False
    from Cons.prems a have "distinct (map fst new_periods @ map fst ps)" by auto
    then have "prune_loop ps new_periods = new_periods @ filter (\<lambda>(n, p). resolution p > 0) ps"
      by (rule Cons.IH)
    with False show ?thesis by (simp add: a)
  qed
qed

text \<open>
  Claim C1, amended. When every period whose argument is \<open>'auto'\<close> is named yearly, weekly
  or daily (the keys of a dictionary being distinct), the resolver succeeds, and its result
  is the one of \<open>spec_resolve\<close>: each resolution is 0 or the default for \<open>'auto'\<close> according
  to the flag of the name, the default for \<open>True\<close>, 0 for \<open>False\<close>, the integer conversion
  of a number; the periods kept are exactly those with a positive resolution, in their
  original order; the result is absent exactly when no period is kept.
\<close>

theorem set_auto_seasonalities_resolves:
  assumes "distinct (map fst (periods c))"
      and "\<forall>(n, p) \<in> set (periods c). arg p = Auto \<longrightarrow> n \<in> builtin_names"
  shows "set_auto_seasonalities dates c = Inr (spec_resolve (auto_disable dates) c)
         \<and> (set_auto_seasonalities dates c = Inr None \<longleftrightarrow>
              (\<forall>(n, p) \<in> set (periods c).
                  spec_resolution (flag_true (auto_disable dates)) n p \<le> 0))"
proof -
  let ?ad = "auto_disable dates"
  let ?res = "map (\<lambda>(n, p). (n, p\<lparr>resolution := spec_resolution (flag_true ?ad) n p\<rparr>)) (periods c)"
  have "\<forall>(n, p) \<in> set (periods c). arg p = Auto \<longrightarrow> map_of ?ad n \<noteq> None"
    using assms(2) by (auto simp: map_of_auto_disable_None)
  with assms(1) have l: "resolve_loop ?ad (periods c) (periods c) = Inr ?res"
    using resolve_loop_distinct [of "[]" "periods c" ?ad] by simp
  have k: "map fst ?res = map fst (periods c)" by (induction "periods c") auto
  have "distinct (map fst [] @ map fst ?res)" using assms(1) by (simp only: k) simp
  then have p: "prune_loop ?res [] = [] @ filter (\<lambda>(n, p). resolution p > 0) ?res"
    by (rule prune_loop_distinct)
  have eq: "set_auto_seasonalities dates c = Inr (spec_resolve ?ad c)"
    by (simp add: set_auto_seasonalities_def l p spec_resolve_def Let_def)
  have "spec_resolve ?ad c = None \<longleftrightarrow>
        (\<forall>(n, p) \<in> set (periods c). spec_resolution (flag_true ?ad) n p \<le> 0)"
    by (force simp: spec_resolve_def Let_def filter_empty_conv case_prod_beta not_less)
  with eq show ?thesis by simp
qed

theorem set_auto_seasonalities_resolves_witness:
  "distinct (map fst [(''yearly'', \<lparr>arg = Auto, resolution = 6\<rparr>),
                       (''weekly'', \<lparr>arg = Flag True, resolution = 3\<rparr>),
                       (''daily'', \<lparr>arg = Auto, resolution = 6\<rparr>),
                       (''monthly'', \<lparr>arg = ArgInt 4, resolution = 0\<rparr>),
                       (''hourly'', \<lparr>arg = Flag False, resolution = 2\<rparr>)])
   \<and> set_auto_seasonalities [0, 3600000000000, 1728000000000000]
        \<lparr>season_type = ''fourier'',
         periods = [(''yearly'', \<lparr>arg = Auto, resolution = 6\<rparr>),
                    (''weekly'', \<lparr>arg = Flag True, resolution = 3\<rparr>),
                    (''daily'', \<lparr>arg = Auto, resolution = 6\<rparr>),
                    (''monthly'', \<lparr>arg = ArgInt 4, resolution = 0\<rparr>),
                    (''hourly'', \<lparr>arg = Flag False, resolution = 2\<rparr>)]\<rparr>
       = Inr (Some \<lparr>season_type = ''fourier'',
                     periods = [(''weekly'', \<lparr>arg = Flag True, resolution = 3\<rparr>),
                                (''daily'', \<lparr>arg = Auto, resolution = 6\<rparr>),
                                (''monthly'', \<lparr>arg = ArgInt 4, resolution = 4\<rparr>)]\<rparr>)"
  using set_auto_seasonalities_resolves [of
        "\<lparr>season_type = ''fourier'',
         periods = [(''yearly'', \<lparr>arg = Auto, resolution = 6\<rparr>),
                    (''weekly'', \<lparr>arg = Flag True, resolution = 3\<rparr>),
                    (''daily'', \<lparr>arg = Auto, resolution = 6\<rparr>),
                    (''monthly'', \<lparr>arg = ArgInt 4, resolution = 0\<rparr>),
                    (''hourly'', \<lparr>arg = Flag False, resolution = 2\<rparr>)]\<rparr>"
        "[0, 3600000000000, 1728000000000000]"]
  by (simp add: resolver_defs)

text \<open>
  Claim C1 as stated fails for a period with a custom name and the argument \<open>'auto'\<close>:
  the resolver raises \<open>KeyError\<close> where the claim gives the default resolution.
\<close>

theorem set_auto_seasonalities_custom_auto:
  "set_auto_seasonalities [0, 3600000000000, 1728000000000000]
        \<lparr>season_type = ''fourier'',
         periods = [(''weekly'', \<lparr>arg = Auto, resolution = 3\<rparr>),
                    (''monthly'', \<lparr>arg = Auto, resolution = 5\<rparr>)]\<rparr>
     = Inl (KeyError ''monthly'')
   \<and> set_auto_seasonalities [0, 3600000000000, 1728000000000000]
        \<lparr>season_type = ''fourier'',
         periods = [(''weekly'', \<lparr>arg = Auto, resolution = 3\<rparr>),
                    (''monthly'', \<lparr>arg = Auto, resolution = 5\<rparr>)]\<rparr>
     \<noteq> Inr (spec_resolve (auto_disable [0, 3600000000000, 1728000000000000])
        \<lparr>season_type = ''fourier'',
         periods = [(''weekly'', \<lparr>arg = Auto, resolution = 3\<rparr>),
                    (''monthly'', \<lparr>arg = Auto, resolution = 5\<rparr>)]\<rparr>)"
  by (simp add: resolver_defs)

lemma resolve_loop_custom:
  "(n, p) \<in> set items \<Longrightarrow> n \<notin> builtin_names \<Longrightarrow> arg p = Auto \<Longrightarrow>
   \<exists>k q. (k, q) \<in> set items \<and> arg q = Auto \<and> k \<notin> builtin_names
         \<and> resolve_loop (auto_disable dates) items ps = Inl (KeyError k)"
proof (induction items arbitrary: ps)
  case Nil
  then show ?case by simp
next
  case (Cons a items)
  obtain m q where a: "a = (m, q)" by (cases a)
  show ?case
  proof (cases "resolve_period (auto_disable dates) m q")
    case (Inl e)
    then have "e = KeyError m" "m \<notin> builtin_names" "arg q = Auto"
      using resolve_period_Inl [OF Inl] by (simp_all add: map_of_auto_disable_None)
    with Inl have "(m, q) \<in> set (a # items) \<and> arg q = Auto \<and> m \<notin> builtin_names
         \<and> resolve_loop (auto_disable dates) (a # items) ps = Inl (KeyError m)"
      by (simp add: a)
    then show ?thesis by blast
  next
    case (Inr r)
    have "(n, p) \<noteq> (m, q)"
    proof
      assume "(n, p) = (m, q)"
      with Cons.prems have "resolve_period (auto_disable dates) m q = Inl (KeyError m)"
        by (simp add: resolve_period_def map_of_auto_disable_None [THEN iffD2])
      with Inr show False by simp
    qed
    with Cons.prems a have "(n, p) \<in> set items" by auto
    from Cons.IH [OF this Cons.prems(2,3)]
    obtain k q' where "(k, q') \<in> set items" "arg q' = Auto" "k \<notin> builtin_names"
      "resolve_loop (auto_disable dates) items (od_set_resolution m r ps) = Inl (KeyError k)"
      by blast
    with Inr have "(k, q') \<in> set (a # items) \<and> arg q' = Auto \<and> k \<notin> builtin_names
         \<and> resolve_loop (auto_disable dates) (a # items) ps = Inl (KeyError k)"
      by (simp add: a)
    then show ?thesis by blast
  qed
qed

text \<open>
  Claim C10. When some period has a name other than yearly, weekly and daily and the
  argument \<open>'auto'\<close>, the resolver fails, whatever the dates and the other periods are,
  with the \<open>KeyError\<close> of the name of such a period: the table of auto-disable flags has
  no entry for it.
\<close>

theorem custom_auto_raises_KeyError:
  assumes "(n, p) \<in> set (periods c)" and "n \<notin> builtin_names" and "arg p = Auto"
  shows "\<exists>k q. (k, q) \<in> set (periods c) \<and> arg q = Auto \<and> k \<notin> builtin_names
           \<and> map_of (auto_disable dates) k = None
           \<and> set_auto_seasonalities dates c = Inl (KeyError k)"
proof -
  from resolve_loop_custom [OF assms, of dates "periods c"]
  obtain k q where h: "(k, q) \<in> set (periods c)" "arg q = Auto" "k \<notin> builtin_names"
    "resolve_loop (auto_disable dates) (periods c) (periods c) = Inl (KeyError k)"
    by blast
  from h(3) have "map_of (auto_disable dates) k = None"
    by (simp add: map_of_auto_disable_None)
  with h have "(k, q) \<in> set (periods c) \<and> arg q = Auto \<and> k \<notin> builtin_names
           \<and> map_of (auto_disable dates) k = None
           \<and> set_auto_seasonalities dates c = Inl (KeyError k)"
    by (simp add: set_auto_seasonalities_def)
  then show ?thesis by blast
qed

theorem custom_auto_raises_KeyError_witness:
  "(''quarterly'', \<lparr>arg = Auto, resolution = 5\<rparr>)
      \<in> set [(''daily'', \<lparr>arg = Auto, resolution = 3\<rparr>), (''quarterly'', \<lparr>arg = Auto, resolution = 5\<rparr>)]
   \<and> ''quarterly'' \<notin> builtin_names
   \<and> set_auto_seasonalities [0, 86400000000000]
        \<lparr>season_type = ''fourier'',
         periods = [(''daily'', \<lparr>arg = Auto, resolution = 3\<rparr>),
                    (''quarterly'', \<lparr>arg = Auto, resolution = 5\<rparr>)]\<rparr>
       = Inl (KeyError ''quarterly'')"
  using custom_auto_raises_KeyError [of "''quarterly''" "\<lparr>arg = Auto, resolution = 5\<rparr>"
        "\<lparr>season_type = ''fourier'',
         periods = [(''daily'', \<lparr>arg = Auto, resolution = 3\<rparr>),
                    (''quarterly'', \<lparr>arg = Auto, resolution = 5\<rparr>)]\<rparr>" "[0, 86400000000000]"]
  by (simp add: resolver_defs)

subsection \<open>The lambda scheduler\<close>

text \<open>
  Claim C4. The scheduler returns nothing when the sparsity is absent or at least 1.
  Otherwise, for a sparsity other than 0, it returns \<open>0.02 * (1/sparsity - 1)\<close>, multiplied
  by \<open>epoch / delay_epochs\<close> when a delay is given and the epoch is below it; so the result
  is 0 at epoch 0 of a positive delay, and at \<open>epoch = delay_epochs\<close> it is the value
  without delay.
\<close>

theorem get_regularization_lambda_spec:
  "get_regularization_lambda None delay epoch = Inr None
   \<and> (1 \<le> s \<longrightarrow> get_regularization_lambda (Some s) delay epoch = Inr None)
   \<and> (s < 1 \<and> s \<noteq> 0 \<longrightarrow>
        get_regularization_lambda (Some s) None epoch = Inr (Some (0.02 * (1 / s - 1)))
        \<and> ((e < d \<longrightarrow> d \<noteq> 0) \<longrightarrow>
              get_regularization_lambda (Some s) (Some d) (Some e)
              = Inr (Some (if e < d then 0.02 * (1 / s - 1) * (real_of_int e / real_of_int d)
                           else 0.02 * (1 / s - 1))))
        \<and> (0 < d \<longrightarrow> get_regularization_lambda (Some s) (Some d) (Some 0) = Inr (Some 0))
        \<and> get_regularization_lambda (Some s) (Some d) (Some d)
            = get_regularization_lambda (Some s) None epoch)"
  by (auto simp: get_regularization_lambda_def Let_def)

theorem get_regularization_lambda_spec_witness:
  "(1::real) \<le> 1 \<and> (1/2::real) < 1 \<and> (1/2::real) \<noteq> 0 \<and> (0::int) < 10
   \<and> get_regularization_lambda (Some 1) (Some 10) (Some 3) = Inr None
   \<and> get_regularization_lambda None (Some 10) (Some 3) = Inr None
   \<and> get_regularization_lambda (Some (1/2)) None None = Inr (Some (1/50))
   \<and> get_regularization_lambda (Some (1/2)) (Some 10) (Some 0) = Inr (Some 0)
   \<and> get_regularization_lambda (Some (1/2)) (Some 10) (Some 5) = Inr (Some (1/100))
   \<and> get_regularization_lambda (Some (1/2)) (Some 10) (Some 10) = Inr (Some (1/50))"
  using get_regularization_lambda_spec [where s = 1 and delay = "Some 10" and epoch = "Some 3"]
        get_regularization_lambda_spec [where s = "1/2" and d = 10 and e = 5 and epoch = None]
  by simp

subsection \<open>The trend penalty\<close>

lemma reg_func_trend_formula:
  "reg_func_trend weights (Some t) = (\<Sum>w\<leftarrow>weights. max (\<bar>w\<bar> - t) 0)"
  "reg_func_trend weights None = (\<Sum>w\<leftarrow>weights. \<bar>w\<bar>)"
  by (simp_all add: reg_func_trend_def Let_def comp_def)

lemma sum_list_mono2:
  "list_all2 (\<lambda>a b. f a \<le> (g b :: real)) xs ys \<Longrightarrow> sum_list (map f xs) \<le> sum_list (map g ys)"
  by (induction xs ys rule: list_all2_induct) auto

text \<open>
  Claim C7. The trend penalty is the sum over the weights of \<open>max(|w| - threshold, 0)\<close>
  when a threshold is given and the sum of \<open>|w|\<close> otherwise; it is 0 when every \<open>|w|\<close> is
  at most the threshold, and it does not decrease when the absolute values of the weights
  grow.
\<close>

theorem reg_func_trend_spec:
  "reg_func_trend weights (Some t) = (\<Sum>w\<leftarrow>weights. max (\<bar>w\<bar> - t) 0)
   \<and> reg_func_trend weights None = (\<Sum>w\<leftarrow>weights. \<bar>w\<bar>)
   \<and> ((\<forall>w \<in> set weights. \<bar>w\<bar> \<le> t) \<longrightarrow> reg_func_trend weights (Some t) = 0)
   \<and> (\<forall>weights'. list_all2 (\<lambda>w w'. \<bar>w\<bar> \<le> \<bar>w'\<bar>) weights weights'
         \<longrightarrow> reg_func_trend weights threshold \<le> reg_func_trend weights' threshold)"
proof (intro conjI allI impI)
  show "reg_func_trend weights (Some t) = (\<Sum>w\<leftarrow>weights. max (\<bar>w\<bar> - t) 0)"
    by (rule reg_func_trend_formula)
  show "reg_func_trend weights None = (\<Sum>w\<leftarrow>weights. \<bar>w\<bar>)"
    by (rule reg_func_trend_formula)
next
  assume "\<forall>w \<in> set weights. \<bar>w\<bar> \<le> t"
  then have "(\<Sum>w\<leftarrow>weights. max (\<bar>w\<bar> - t) 0) = 0"
    by (induction weights) auto
  then show "reg_func_trend weights (Some t) = 0"
    by (simp only: reg_func_trend_formula)
next
  fix weights'
  assume a: "list_all2 (\<lambda>w w'. \<bar>w\<bar> \<le> \<bar>w'\<bar>) weights weights'"
  show "reg_func_trend weights threshold \<le> reg_func_trend weights' threshold"
  proof (cases threshold)
    case None
    then show ?thesis using sum_list_mono2 [OF a] by (simp add: reg_func_trend_formula)
  next
    case (Some t)
    from a have "list_all2 (\<lambda>w w'. max (\<bar>w\<bar> - t) 0 \<le> max (\<bar>w'\<bar> - t) 0) weights weights'"
      by (rule list_all2_mono) auto
    then have "(\<Sum>w\<leftarrow>weights. max (\<bar>w\<bar> - t) 0) \<le> (\<Sum>w\<leftarrow>weights'. max (\<bar>w\<bar> - t) 0)"
      by (rule sum_list_mono2)
    then show ?thesis by (simp only: Some reg_func_trend_formula)
  qed
qed

theorem reg_func_trend_spec_witness:
  "\<bar>1/2 :: real\<bar> \<le> 1 \<and> \<bar>- 1 :: real\<bar> \<le> 1
   \<and> list_all2 (\<lambda>w w'. \<bar>w\<bar> \<le> \<bar>w'\<bar>) [1/2, - 1 :: real] [1, - 3]
   \<and> reg_func_trend [1/2, - 1] (Some 1) = 0
   \<and> reg_func_trend [1/2, - 1] (Some 1) \<le> reg_func_trend [1, - 3] (Some 1)
   \<and> reg_func_trend [1, - 3] (Some 1) = 2
   \<and> reg_func_trend [1, - 3] None = 4"
  using reg_func_trend_spec [of "[1/2, - 1]" 1 "Some 1"] reg_func_trend_spec [of "[1, - 3]" 1 "Some 1"]
  by simp

subsection \<open>The symmetric percentage error\<close>

lemma sum_list_zip_nth:
  "length xs = length ys \<Longrightarrow>
   sum_list (map f (zip xs ys)) = (\<Sum>i<length xs. (f (xs ! i, ys ! i) :: real))"
proof -
  assume l: "length xs = length ys"
  have "sum_list (map f (zip xs ys)) = (\<Sum>i = 0..<length (map f (zip xs ys)). map f (zip xs ys) ! i)"
    by (rule sum_list_sum_nth)
  also have "\<dots> = (\<Sum>i = 0..<length xs. f (xs ! i, ys ! i))"
    using l by (intro sum.cong) auto
  finally show ?thesis by (simp add: lessThan_atLeast0)
qed

lemma abs_diff_sum_le:
  "sum_list (map (\<lambda>(e, v). \<bar>e - v\<bar>) pairs) \<le> sum_list (map (\<lambda>(e, v). \<bar>e\<bar> + \<bar>v :: real\<bar>) pairs)"
  by (rule sum_list_mono) auto

lemma abs_diff_sum_nonneg: "0 \<le> sum_list (map (\<lambda>(e, v). \<bar>e - v :: real\<bar>) pairs)"
  by (rule sum_list_nonneg) auto

lemma ratio_bounds:
  assumes "0 \<le> a" and "a \<le> (b::real)"
  shows "0 \<le> 100 * a / (10 / 10 ^ 9 + b) \<and> 100 * a / (10 / 10 ^ 9 + b) < 100"
proof -
  have p: "0 < 10 / 10 ^ 9 + b" using assms by simp
  have "a < 10 / 10 ^ 9 + b" using assms by simp
  then have "a / (10 / 10 ^ 9 + b) < 1" using p by simp
  then have "100 * a / (10 / 10 ^ 9 + b) < 100" by simp
  moreover have "0 \<le> 100 * a / (10 / 10 ^ 9 + b)" using assms p by simp
  ultimately show ?thesis by simp
qed

lemma np_broadcast_uminus:
  "np_broadcast (map uminus xs) (map uminus ys)
   = (case np_broadcast xs ys of Inl e \<Rightarrow> Inl e | Inr ps \<Rightarrow> Inr (map (\<lambda>(x, y). (- x, - y)) ps))"
proof -
  have h: "length zs = Suc 0 \<Longrightarrow> hd (map uminus zs) = - hd zs" for zs :: "real list"
    by (cases zs) auto
  show ?thesis
    by (auto simp: np_broadcast_def zip_map_map h comp_def split: sum.splits)
qed

lemma stpe_uminus:
  "symmetric_total_percentage_error (map uminus values) (map uminus estimates)
   = symmetric_total_percentage_error values estimates"
proof -
  have a: "(\<lambda>(e, v). \<bar>e - v\<bar>) \<circ> (\<lambda>(x, y). (- x, - y)) = (\<lambda>(e, v). \<bar>e - v :: real\<bar>)"
    by (auto simp: fun_eq_iff)
  have b: "(\<lambda>(e, v). \<bar>e\<bar> + \<bar>v\<bar>) \<circ> (\<lambda>(x, y). (- x, - y)) = (\<lambda>(e, v). \<bar>e\<bar> + \<bar>v :: real\<bar>)"
    by (auto simp: fun_eq_iff)
  show ?thesis
    by (cases "np_broadcast estimates values")
       (simp_all add: symmetric_total_percentage_error_def np_broadcast_uminus a b)
qed

lemma stpe_same: "symmetric_total_percentage_error v v = Inr 0"
proof -
  have "sum_list (map (\<lambda>(e, v). \<bar>e - v\<bar>) (zip v v)) = (0::real)"
    by (induction v) auto
  then show ?thesis
    by (simp add: symmetric_total_percentage_error_def np_broadcast_def)
qed

text \<open>
  The error in exact arithmetic. For \<open>values\<close> and \<open>estimates\<close> of equal length it is
  \<open>100 * sum(|estimates - values|) / (1e-8 + sum(|estimates| + |values|))\<close>, it is not
  negative and it is below 100; the error of a sequence against itself is 0; negating both
  sequences does not change the error. The strict bound belongs to exact arithmetic only:
  rounded to binary64 the sum \<open>1e-8 + 2e8\<close> is \<open>2e8\<close>, so that the code returns \<open>100.0\<close> for
  the value \<open>1e8\<close> and the estimate \<open>-1e8\<close>. Rounding is outside this embedding.
\<close>

lemma symmetric_total_percentage_error_exact:
  "(length values = length estimates \<longrightarrow>
      (\<exists>r. symmetric_total_percentage_error values estimates = Inr r
         \<and> r = 100 * (\<Sum>i<length values. \<bar>estimates ! i - values ! i\<bar>)
                / (1 / 10 ^ 8 + (\<Sum>i<length values. \<bar>estimates ! i\<bar> + \<bar>values ! i\<bar>))
         \<and> 0 \<le> r \<and> r < 100))
   \<and> symmetric_total_percentage_error values values = Inr 0
   \<and> symmetric_total_percentage_error (map uminus values) (map uminus estimates)
       = symmetric_total_percentage_error values estimates"
proof (intro conjI impI)
  assume l: "length values = length estimates"
  let ?ps = "zip estimates values"
  let ?a = "sum_list (map (\<lambda>(e, v). \<bar>e - v\<bar>) ?ps)"
  let ?b = "sum_list (map (\<lambda>(e, v). \<bar>e\<bar> + \<bar>v\<bar>) ?ps)"
  have r: "symmetric_total_percentage_error values estimates = Inr (100 * ?a / (10 / 10 ^ 9 + ?b))"
    using l by (simp add: symmetric_total_percentage_error_def np_broadcast_def)
  have a: "?a = (\<Sum>i<length values. \<bar>estimates ! i - values ! i\<bar>)"
    using l sum_list_zip_nth [of estimates "values" "\<lambda>(e, v). \<bar>e - v\<bar>"] by simp
  have b: "?b = (\<Sum>i<length values. \<bar>estimates ! i\<bar> + \<bar>values ! i\<bar>)"
    using l sum_list_zip_nth [of estimates "values" "\<lambda>(e, v). \<bar>e\<bar> + \<bar>v\<bar>"] by simp
  have c: "(10 / 10 ^ 9 :: real) = 1 / 10 ^ 8" by simp
  from ratio_bounds [OF abs_diff_sum_nonneg abs_diff_sum_le, of "?ps"]
  have bd: "0 \<le> 100 * ?a / (10 / 10 ^ 9 + ?b) \<and> 100 * ?a / (10 / 10 ^ 9 + ?b) < 100" .
  show "\<exists>r. symmetric_total_percentage_error values estimates = Inr r
         \<and> r = 100 * (\<Sum>i<length values. \<bar>estimates ! i - values ! i\<bar>)
                / (1 / 10 ^ 8 + (\<Sum>i<length values. \<bar>estimates ! i\<bar> + \<bar>values ! i\<bar>))
         \<and> 0 \<le> r \<and> r < 100"
    using bd unfolding r a b c by blast
next
  show "symmetric_total_percentage_error values values = Inr 0" by (rule stpe_same)
  show "symmetric_total_percentage_error (map uminus values) (map uminus estimates)
       = symmetric_total_percentage_error values estimates" by (rule stpe_uminus)
qed

lemma symmetric_total_percentage_error_exact_example:
  "length [1, 2 :: real] = length [1, - 2 :: real]
   \<and> symmetric_total_percentage_error [1, 2] [1, - 2] = Inr (40000000000 / 600000001)
   \<and> symmetric_total_percentage_error [- 1, - 2] [- 1, 2] = Inr (40000000000 / 600000001)"
  using symmetric_total_percentage_error_exact [of "[1, 2]" "[1, - 2]"]
  by (simp add: symmetric_total_percentage_error_def np_broadcast_def)

subsection \<open>The autoregressive penalty\<close>

lemma ar_term_bounds:
  assumes "0 \<le> (a::real)"
  shows "0 \<le> 2 / (1 + exp (- 3 * (1 / 10 ^ 12 + a) powr (1 / 3))) - 1"
    and "2 / (1 + exp (- 3 * (1 / 10 ^ 12 + a) powr (1 / 3))) - 1 < 1"
proof -
  define x where "x = exp (- 3 * (1 / 10 ^ 12 + a) powr (1 / 3))"
  have "- 3 * (1 / 10 ^ 12 + a) powr (1 / 3) \<le> 0" by simp
  then have le: "x \<le> 1" unfolding x_def by (simp only: exp_le_one_iff)
  have pos: "0 < x" unfolding x_def by (rule exp_gt_zero)
  from le pos have "0 \<le> 2 / (1 + x) - 1" by (simp add: field_simps)
  then show "0 \<le> 2 / (1 + exp (- 3 * (1 / 10 ^ 12 + a) powr (1 / 3))) - 1"
    unfolding x_def .
  from pos have "2 / (1 + x) - 1 < 1" by (simp add: field_simps)
  then show "2 / (1 + exp (- 3 * (1 / 10 ^ 12 + a) powr (1 / 3))) - 1 < 1"
    unfolding x_def .
qed

lemma mean_bounds:
  assumes "xs \<noteq> []" and "\<forall>x \<in> set xs. 0 \<le> x \<and> x < (1::real)"
  shows "0 \<le> sum_list xs / real (length xs) \<and> sum_list xs / real (length xs) < 1"
proof -
  have "0 \<le> sum_list xs" using assms(2) by (intro sum_list_nonneg) auto
  moreover have "sum_list xs < real (length xs)"
    using assms by (induction xs rule: list_nonempty_induct) (auto simp: add_less_le_mono less_imp_le)
  moreover have "0 < real (length xs)" using assms(1) by simp
  ultimately show ?thesis by simp
qed

lemma cube_root_small: "(1 / 10 ^ 12 :: real) powr (1 / 3) = 1 / 10 ^ 4"
proof -
  have c: "(1 / 10 ^ 12 :: real) = (1 / 10 ^ 4) ^ 3"
    by (simp add: power_divide)
  have "(1 / 10 ^ 12 :: real) powr (1 / 3) = root 3 (1 / 10 ^ 12)"
    by (simp add: root_powr_inverse)
  also have "\<dots> = root 3 ((1 / 10 ^ 4) ^ 3)"
    by (simp only: c)
  also have "\<dots> = 1 / 10 ^ 4"
    by (rule real_root_power_cancel) simp_all
  finally show ?thesis .
qed

lemma ar_term_zero:
  "2 / (1 + exp (- 3 * (1 / 10 ^ 12 + \<bar>0::real\<bar>) powr (1 / 3))) - 1 < 1 / 5000"
proof -
  let ?t = "3 / 10 ^ 4 :: real"
  have "(1 / 10 ^ 12 + \<bar>0::real\<bar>) powr (1 / 3) = 1 / 10 ^ 4"
    by (simp only: abs_zero add_0_right cube_root_small)
  then have e: "- 3 * (1 / 10 ^ 12 + \<bar>0::real\<bar>) powr (1 / 3) = - ?t"
    by (simp only:)
  have "1 + (- ?t) \<le> exp (- ?t)" by (rule exp_ge_add_one_self)
  then have "2 - ?t \<le> 1 + exp (- ?t)" by simp
  moreover have "0 < 2 - ?t" by simp
  ultimately have "2 / (1 + exp (- ?t)) \<le> 2 / (2 - ?t)" by (intro divide_left_mono) auto
  also have "\<dots> < 1 + 1 / 5000" by simp
  finally show ?thesis unfolding e by simp
qed

lemma reg_func_ar_formula:
  "weights \<noteq> [] \<Longrightarrow>
   reg_func_ar weights
   = Some ((\<Sum>w\<leftarrow>weights. 2 / (1 + exp (- 3 * (1 / 10 ^ 12 + \<bar>w\<bar>) powr (1 / 3))) - 1)
           / real (length weights))"
  by (simp add: reg_func_ar_def tensor_mean_def Let_def comp_def)

text \<open>
  The penalty in exact arithmetic. For a tensor with at least one entry it is the
  arithmetic mean of \<open>2 / (1 + exp(-3 * (1e-12 + |w|)^(1/3))) - 1\<close> over the entries and
  lies in \<open>[0, 1)\<close>; for a tensor of zeros it is below \<open>0.0002\<close>. The strict bound belongs to
  exact arithmetic only: in floating point \<open>1 + exp(-3 * |w|^(1/3))\<close> rounds to \<open>1\<close> for a
  large weight, and the code returns \<open>1.0\<close>. Rounding is outside this embedding.
\<close>

lemma reg_func_ar_exact:
  "(weights \<noteq> [] \<longrightarrow>
      (\<exists>r. reg_func_ar weights = Some r
         \<and> r = (\<Sum>w\<leftarrow>weights. 2 / (1 + exp (- 3 * (1 / 10 ^ 12 + \<bar>w\<bar>) powr (1 / 3))) - 1)
               / real (length weights)
         \<and> 0 \<le> r \<and> r < 1))
   \<and> (0 < n \<longrightarrow> (\<exists>r. reg_func_ar (replicate n 0) = Some r \<and> 0 \<le> r \<and> r < 1 / 5000))"
proof (intro conjI impI)
  assume ne: "weights \<noteq> []"
  let ?g = "\<lambda>w::real. 2 / (1 + exp (- 3 * (1 / 10 ^ 12 + \<bar>w\<bar>) powr (1 / 3))) - 1"
  have "map ?g weights \<noteq> []" using ne by simp
  moreover have "\<forall>x \<in> set (map ?g weights). 0 \<le> x \<and> x < 1"
    using ar_term_bounds by auto
  ultimately have "0 \<le> sum_list (map ?g weights) / real (length (map ?g weights))
                 \<and> sum_list (map ?g weights) / real (length (map ?g weights)) < 1"
    by (rule mean_bounds)
  then show "\<exists>r. reg_func_ar weights = Some r
         \<and> r = (\<Sum>w\<leftarrow>weights. ?g w) / real (length weights) \<and> 0 \<le> r \<and> r < 1"
    using reg_func_ar_formula [OF ne] by simp
next
  assume n: "0 < n"
  let ?g = "\<lambda>w::real. 2 / (1 + exp (- 3 * (1 / 10 ^ 12 + \<bar>w\<bar>) powr (1 / 3))) - 1"
  have ne: "replicate n (0::real) \<noteq> []" using n by simp
  have "(\<Sum>w\<leftarrow>replicate n (0::real). ?g w) = real n * ?g 0"
    by (simp add: sum_list_replicate del: abs_zero)
  then have "reg_func_ar (replicate n 0) = Some (real n * ?g 0 / real n)"
    using reg_func_ar_formula [OF ne] by (simp del: abs_zero)
  then have r: "reg_func_ar (replicate n 0) = Some (?g 0)" using n by simp
  have "0 \<le> ?g 0" using ar_term_bounds(1) [of "\<bar>0\<bar>"] by simp
  moreover have "?g 0 < 1 / 5000" by (rule ar_term_zero)
  ultimately show "\<exists>r. reg_func_ar (replicate n 0) = Some r \<and> 0 \<le> r \<and> r < 1 / 5000"
    using r by blast
qed

lemma reg_func_ar_exact_example:
  "[0, 1000, - 2 :: real] \<noteq> [] \<and> (0::nat) < 3
   \<and> (\<exists>r. reg_func_ar [0, 1000, - 2] = Some r \<and> 0 \<le> r \<and> r < 1)
   \<and> (\<exists>r. reg_func_ar [0, 0, 0] = Some r \<and> 0 \<le> r \<and> r < 1 / 5000)"
  using reg_func_ar_exact [of "[0, 1000, - 2]" 3]
  by (auto simp: numeral_3_eq_3)

subsection \<open>The metric printer\<close>

lemma foldl_od_set_distinct:
  "distinct (map fst (d @ items)) \<Longrightarrow> foldl (\<lambda>d (k, v). od_set k v d) d items = d @ items"
proof (induction items arbitrary: d)
  case Nil
  then show ?case by simp
next
  case (Cons a items)
  obtain k v where a: "a = (k, v)" by (cases a)
  from Cons.prems a have "k \<notin> fst ` set d" by auto
  then have s: "od_set k v d = d @ [(k, v)]" by (rule od_set_fresh)
  from Cons.prems a have "distinct (map fst ((d @ [(k, v)]) @ items))" by simp
  then have "foldl (\<lambda>d (k, v). od_set k v d) (d @ [(k, v)]) items = (d @ [(k, v)]) @ items"
    by (rule Cons.IH)
  then show ?case by (simp add: a s)
qed

lemma dict_of_items_distinct: "distinct (map fst items) \<Longrightarrow> dict_of_items items = items"
  using foldl_od_set_distinct [of "[]" items] by (simp add: dict_of_items_def)

lemma suffixed_keys:
  "map fst (map (\<lambda>(key, value). (key @ sfx, value)) vm) = map (\<lambda>key. key @ sfx) (map fst vm)"
  by (induction vm) auto

lemma suffixed_keys_distinct:
  "distinct (map fst vm) \<Longrightarrow> distinct (map fst (map (\<lambda>(key, value). (key @ sfx, value)) vm))"
  unfolding suffixed_keys by (simp add: distinct_map inj_on_def)

lemma suffixed_keys_disjoint:
  "\<forall>key \<in> fst ` set vm. key @ sfx \<notin> fst ` set metrics \<Longrightarrow>
   set (map fst metrics) \<inter> set (map fst (map (\<lambda>(key, value). (key @ sfx, value)) vm)) = {}"
  unfolding suffixed_keys by (induction vm) auto

lemma merge_distinct:
  assumes "distinct (map fst metrics)" and "distinct (map fst vm)"
      and "\<forall>key \<in> fst ` set vm. key @ sfx \<notin> fst ` set metrics"
  shows "dict_of_items (dict_of_items (metrics @ dict_of_items (map (\<lambda>(key, value). (key @ sfx, value)) vm)))
         = metrics @ map (\<lambda>(key, value). (key @ sfx, value)) vm"
proof -
  let ?val = "map (\<lambda>(key, value). (key @ sfx, value)) vm"
  have v: "dict_of_items ?val = ?val"
    using assms(2) by (intro dict_of_items_distinct suffixed_keys_distinct)
  have "distinct (map fst metrics @ map fst ?val)"
    using assms(1) suffixed_keys_distinct [OF assms(2)] suffixed_keys_disjoint [OF assms(3)]
    by (simp only: distinct_append simp_thms)
  then have "distinct (map fst (metrics @ ?val))" by simp
  then have "dict_of_items (metrics @ ?val) = metrics @ ?val"
    by (rule dict_of_items_distinct)
  then show ?thesis by (simp only: v)
qed

lemma display_row_merge:
  assumes "distinct (map fst metrics)" and "distinct (map fst vm)" and "vm \<noteq> []"
      and "\<forall>key \<in> fst ` set vm. key @ ''_val'' \<notin> fst ` set metrics"
  shows "display_row metrics (Some vm) = metrics @ map (\<lambda>(key, value). (key @ ''_val'', value)) vm"
  using assms(3) merge_distinct [OF assms(1,2,4)]
  by (simp only: display_row_def Let_def option.case length_greater_0_conv simp_thms if_True)

lemma od_set_nonempty: "od_set k v d \<noteq> []"
proof (cases d)
  case Nil
  then show ?thesis by simp
next
  case (Cons a rest)
  obtain k' v' where "a = (k', v')" by (cases a)
  with Cons show ?thesis by simp
qed

lemma foldl_od_set_nonempty:
  "d \<noteq> [] \<Longrightarrow> foldl (\<lambda>d (k, v). od_set k v d) d items \<noteq> []"
proof (induction items arbitrary: d)
  case Nil
  then show ?case by simp
next
  case (Cons a items)
  obtain k v where a: "a = (k, v)" by (cases a)
  have "od_set k v d \<noteq> []" by (rule od_set_nonempty)
  then have "foldl (\<lambda>d (k, v). od_set k v d) (od_set k v d) items \<noteq> []"
    by (rule Cons.IH)
  then show ?case by (simp add: a)
qed

lemma dict_of_items_empty: "dict_of_items items = [] \<longleftrightarrow> items = []"
proof (cases items)
  case Nil
  then show ?thesis by (simp add: dict_of_items_def)
next
  case (Cons a rest)
  obtain k v where "a = (k, v)" by (cases a)
  with Cons show ?thesis
    using foldl_od_set_nonempty [of "od_set k v []" rest]
    by (simp add: dict_of_items_def od_set_nonempty)
qed

lemma display_row_empty:
  "display_row metrics val_metrics = [] \<longleftrightarrow>
   metrics = [] \<and> (val_metrics = None \<or> val_metrics = Some [])"
proof (cases val_metrics)
  case None
  then show ?thesis by (simp add: display_row_def dict_of_items_empty)
next
  case (Some vm)
  show ?thesis
  proof (cases "vm = []")
    case True
    with Some show ?thesis by (simp add: display_row_def dict_of_items_empty)
  next
    case False
    then have "map (\<lambda>(key, value). (key @ ''_val'', value)) vm \<noteq> []"
      by (simp only: map_is_Nil_conv not_False_eq_True)
    then have "dict_of_items (dict_of_items
                 (metrics @ dict_of_items (map (\<lambda>(key, value). (key @ ''_val'', value)) vm))) \<noteq> []"
      by (simp only: dict_of_items_empty append_is_Nil_conv simp_thms not_False_eq_True)
    with False Some show ?thesis
      by (simp only: display_row_def Let_def option.case length_greater_0_conv if_True
          option.inject option.distinct simp_thms)
  qed
qed

text \<open>
  Claim C9, amended. When the displayed row has at least one entry, that is unless there
  is no training metric and no validation metric, the printer called with epoch 0 writes
  two lines, the header line followed by the value line, and called with an epoch above 0
  it writes the value line only. When validation metrics are given, are not empty, and no
  training key equals a validation key with the suffix \<open>_val\<close>, the displayed row is the
  training entries followed by the validation entries under their suffixed keys.
\<close>

theorem print_epoch_metrics_spec:
  "(display_row metrics val_metrics = [] \<longleftrightarrow>
      metrics = [] \<and> (val_metrics = None \<or> val_metrics = Some []))
   \<and> (display_row metrics val_metrics \<noteq> [] \<longrightarrow>
        print_epoch_metrics metrics val_metrics 0
        = Inr [Header (map fst (display_row metrics val_metrics)),
               Values 1 (map snd (display_row metrics val_metrics))])
   \<and> (0 < e \<and> display_row metrics val_metrics \<noteq> [] \<longrightarrow>
        print_epoch_metrics metrics val_metrics e
        = Inr [Values (e + 1) (map snd (display_row metrics val_metrics))])
   \<and> (distinct (map fst metrics) \<and> distinct (map fst vm) \<and> vm \<noteq> []
        \<and> (\<forall>key \<in> fst ` set vm. key @ ''_val'' \<notin> fst ` set metrics) \<longrightarrow>
      display_row metrics (Some vm) = metrics @ map (\<lambda>(key, value). (key @ ''_val'', value)) vm)"
proof (intro conjI impI)
  show "display_row metrics val_metrics = [] \<longleftrightarrow>
      metrics = [] \<and> (val_metrics = None \<or> val_metrics = Some [])"
    by (rule display_row_empty)
next
  assume "display_row metrics val_metrics \<noteq> []"
  then show "print_epoch_metrics metrics val_metrics 0
        = Inr [Header (map fst (display_row metrics val_metrics)),
               Values 1 (map snd (display_row metrics val_metrics))]"
    by (simp add: print_epoch_metrics_def to_string_def Let_def)
next
  assume "0 < e \<and> display_row metrics val_metrics \<noteq> []"
  then show "print_epoch_metrics metrics val_metrics e
        = Inr [Values (e + 1) (map snd (display_row metrics val_metrics))]"
    by (simp add: print_epoch_metrics_def to_string_def Let_def)
next
  assume "distinct (map fst metrics) \<and> distinct (map fst vm) \<and> vm \<noteq> []
        \<and> (\<forall>key \<in> fst ` set vm. key @ ''_val'' \<notin> fst ` set metrics)"
  then show "display_row metrics (Some vm) = metrics @ map (\<lambda>(key, value). (key @ ''_val'', value)) vm"
    by (intro display_row_merge) blast+
qed


text \<open>
  Claim C9 as stated fails in two places. Without any metric the frame has no column and
  its text has three lines: epoch 0 prints three lines, and a later epoch prints the
  second of them, which is not a value line. And when a training key is already a suffixed
  validation key, the merged entry stays at the place of the training key, ahead of later
  training entries.
\<close>

theorem print_epoch_metrics_empty_row:
  "print_epoch_metrics [] None 0 = Inr [Empty_DataFrame, Columns_empty, Index_labels [1]]
   \<and> print_epoch_metrics [] None 5 = Inr [Columns_empty]
   \<and> display_row [(''loss_val'', 1), (''mae'', 2)] (Some [(''loss'', 3)])
     = [(''loss_val'', 3), (''mae'', 2)]
   \<and> display_row [(''loss_val'', 1), (''mae'', 2)] (Some [(''loss'', 3)])
     \<noteq> [(''loss_val'', 1), (''mae'', 2)] @ map (\<lambda>(key, value). (key @ ''_val'', value)) [(''loss'', 3)]"
  by (simp add: print_epoch_metrics_def to_string_def display_row_def dict_of_items_def)


theorem print_epoch_metrics_spec_witness:
  "distinct (map fst [(''loss'', 1 :: real), (''mae'', 2)]) \<and> distinct (map fst [(''loss'', 3 :: real)])
   \<and> display_row [(''loss'', 1), (''mae'', 2)] (Some [(''loss'', 3)]) \<noteq> []
   \<and> print_epoch_metrics [(''loss'', 1), (''mae'', 2)] (Some [(''loss'', 3)]) 0
       = Inr [Header [''loss'', ''mae'', ''loss_val''], Values 1 [1, 2, 3]]
   \<and> print_epoch_metrics [(''loss'', 1), (''mae'', 2)] (Some [(''loss'', 3)]) 5
       = Inr [Values 6 [1, 2, 3]]
   \<and> display_row [(''loss'', 1), (''mae'', 2)] (Some [(''loss'', 3)])
       = [(''loss'', 1), (''mae'', 2), (''loss_val'', 3)]"
  using print_epoch_metrics_spec [of "[(''loss'', 1), (''mae'', 2)]" "Some [(''loss'', 3)]" 5 "[(''loss'', 3)]"]
  by (simp add: display_row_def dict_of_items_def)

end
